theory Spec2Isabelle
  imports Complex_Main "HOL-Library.Sublist"
begin

section \<open>Python values\<close>

text \<open>
  A Python \<^verbatim>\<open>str\<close> is the list of its Unicode code points, so that \<open>length\<close> is
  Python's \<^verbatim>\<open>len\<close>, which is what pydantic's \<^verbatim>\<open>min_length\<close> and \<^verbatim>\<open>max_length\<close> count.
  \<open>str_lit\<close> writes an ASCII literal.
\<close>

type_synonym py_str = "nat list"

definition str_lit :: "string \<Rightarrow> py_str" where
  "str_lit s = map of_char s"

text \<open>
  A Python \<^verbatim>\<open>float\<close>: a finite value, one of the two infinities, or not-a-number.
  \<open>float_gt x b\<close> is the comparison \<^verbatim>\<open>x > b\<close> against a finite bound, false at NaN.
\<close>

datatype py_float = Finite real | PosInf | NegInf | NaN

fun float_gt :: "py_float \<Rightarrow> real \<Rightarrow> bool" where
  "float_gt (Finite x) b = (b < x)"
| "float_gt PosInf b = True"
| "float_gt NegInf b = False"
| "float_gt NaN b = False"

text \<open>\<^verbatim>\<open>datetime.now()\<close> reads the clock; the value read is an input of the model.\<close>

type_synonym datetime = int

text \<open>Decoded JSON, the values a request body may carry under keys no model declares.\<close>

datatype json = JNull | JBool bool | JNum py_float | JStr py_str
  | JArr "json list" | JObj "(py_str \<times> json) list"

text \<open>\<^verbatim>\<open>str(n)\<close> for an integer, as the f-string of \<^verbatim>\<open>delete_product\<close> formats it.\<close>

definition digit :: "nat \<Rightarrow> nat" where
  "digit d = of_char CHR ''0'' + d"

function str_nat :: "nat \<Rightarrow> py_str" where
  "str_nat n = (if n < 10 then [digit n] else str_nat (n div 10) @ [digit (n mod 10)])"
  by pat_completeness auto
termination
  by (relation "measure (\<lambda>n. n)") auto

declare str_nat.simps [simp del]

definition str_int :: "int \<Rightarrow> py_str" where
  "str_int i = (if i < 0 then str_lit ''-'' @ str_nat (nat (- i)) else str_nat (nat i))"

section \<open>Insertion-ordered dictionaries\<close>

text \<open>
  A Python \<^verbatim>\<open>dict\<close> keeps its keys in insertion order: it is the list of its items.
  \<^verbatim>\<open>d[k] = v\<close> replaces the value of a key that is present, where it stands, and
  appends a new key at the end. \<^verbatim>\<open>d[k]\<close> and \<^verbatim>\<open>del d[k]\<close> raise KeyError at an absent
  key, which is the result \<open>None\<close>.
\<close>

type_synonym ('k, 'v) dict = "('k \<times> 'v) list"

fun dict_contains :: "'k \<Rightarrow> ('k, 'v) dict \<Rightarrow> bool" where
  "dict_contains k [] = False"
| "dict_contains k ((k', v) # d) = (k = k' \<or> dict_contains k d)"

fun dict_getitem :: "('k, 'v) dict \<Rightarrow> 'k \<Rightarrow> 'v option" where
  "dict_getitem [] k = None"
| "dict_getitem ((k', v) # d) k = (if k = k' then Some v else dict_getitem d k)"

fun dict_setitem :: "('k, 'v) dict \<Rightarrow> 'k \<Rightarrow> 'v \<Rightarrow> ('k, 'v) dict" where
  "dict_setitem [] k v = [(k, v)]"
| "dict_setitem ((k', v') # d) k v =
     (if k = k' then (k, v) # d else (k', v') # dict_setitem d k v)"

fun dict_delitem :: "('k, 'v) dict \<Rightarrow> 'k \<Rightarrow> ('k, 'v) dict option" where
  "dict_delitem [] k = None"
| "dict_delitem ((k', v) # d) k =
     (if k = k' then Some d
      else (case dict_delitem d k of None \<Rightarrow> None | Some d' \<Rightarrow> Some ((k', v) # d')))"

definition dict_values :: "('k, 'v) dict \<Rightarrow> 'v list" where
  "dict_values d = map snd d"

definition dict_keys :: "('k, 'v) dict \<Rightarrow> 'k list" where
  "dict_keys d = map fst d"

text \<open>
  The slice \<^verbatim>\<open>xs[start:stop]\<close> of a list: a negative bound counts from the end, and
  both bounds are clamped to the list, so a slice never raises.
\<close>

definition slice_bound :: "int \<Rightarrow> int \<Rightarrow> int" where
  "slice_bound n i = (if i < 0 then max (i + n) 0 else min i n)"

definition py_slice :: "'a list \<Rightarrow> int \<Rightarrow> int \<Rightarrow> 'a list" where
  "py_slice xs start stop =
     (let n = int (length xs);
          lo = slice_bound n start;
          hi = slice_bound n stop
      in if lo < hi then take (nat (hi - lo)) (drop (nat lo) xs) else [])"

section \<open>The product models\<close>

text \<open>
  \<^verbatim>\<open>ProductBase\<close> declares the four client fields; \<^verbatim>\<open>ProductCreate\<close> adds nothing to
  it, and \<^verbatim>\<open>Product\<close> adds the two fields the service assigns (\<open>id_num\<close> is the
  field \<^verbatim>\<open>id\<close>).
\<close>

record ProductBase =
  name :: py_str
  description :: "py_str option"
  price :: py_float
  in_stock :: bool

type_synonym ProductCreate = ProductBase

record Product = ProductBase +
  id_num :: int
  created_at :: datetime

datatype error = ValidationError | NotFound | InternalError

text \<open>
  The field constraints of \<^verbatim>\<open>ProductBase\<close>: \<^verbatim>\<open>min_length=1\<close>, \<^verbatim>\<open>max_length=100\<close> on the
  name and \<^verbatim>\<open>gt=0\<close> on the price. Every model that inherits the fields checks them.
\<close>

definition field_constraints :: "py_str \<Rightarrow> py_float \<Rightarrow> bool" where
  "field_constraints n p \<longleftrightarrow> 1 \<le> length n \<and> length n \<le> 100 \<and> float_gt p 0"

text \<open>
  The body of a POST request after JSON decoding, each declared key read at its declared
  type: \<open>None\<close> is a key the client left out (for the description also \<^verbatim>\<open>null\<close>), and
  \<open>body_extra\<close> holds the keys that \<^verbatim>\<open>ProductCreate\<close> does not declare.
\<close>

record request_body =
  body_name :: "py_str option"
  body_description :: "py_str option"
  body_price :: "py_float option"
  body_in_stock :: "bool option"
  body_extra :: "(py_str \<times> json) list"

text \<open>
  Validation of the body against \<^verbatim>\<open>ProductCreate\<close>: name and price are required
  (\<^verbatim>\<open>Field(...)\<close>), the description defaults to \<^verbatim>\<open>None\<close> and \<^verbatim>\<open>in_stock\<close> to \<^verbatim>\<open>True\<close>.
  The model sets no \<^verbatim>\<open>extra\<close> policy, so pydantic's default applies and undeclared
  keys are dropped: the validated model holds the four declared fields only.
\<close>

definition validate_ProductCreate :: "request_body \<Rightarrow> error + ProductCreate" where
  "validate_ProductCreate b =
     (case body_name b of
        None \<Rightarrow> Inl ValidationError
      | Some n \<Rightarrow>
          (case body_price b of
             None \<Rightarrow> Inl ValidationError
           | Some p \<Rightarrow>
               if field_constraints n p
               then Inr \<lparr>name = n, description = body_description b, price = p,
                         in_stock = (case body_in_stock b of None \<Rightarrow> True | Some v \<Rightarrow> v)\<rparr>
               else Inl ValidationError))"

text \<open>
  The constructor call \<^verbatim>\<open>Product(id=..., created_at=..., **product.model_dump())\<close>.
  It checks the inherited constraints again; a failure there is raised inside the
  handler, which is an internal error and not a rejected request.
\<close>

definition new_Product :: "int \<Rightarrow> datetime \<Rightarrow> ProductCreate \<Rightarrow> error + Product" where
  "new_Product i t product =
     (if field_constraints (name product) (price product)
      then Inr \<lparr>name = name product, description = description product,
                price = price product, in_stock = in_stock product,
                id_num = i, created_at = t\<rparr>
      else Inl InternalError)"

section \<open>The in-memory database and the endpoints\<close>

record state =
  fake_db :: "(int, Product) dict"
  product_counter :: int

definition init_state :: state where
  "init_state = \<lparr>fake_db = [], product_counter = 1\<rparr>"

text \<open>
  \<^verbatim>\<open>read_products\<close>: the query constraints \<^verbatim>\<open>ge=0\<close> on skip and \<^verbatim>\<open>ge=1, le=100\<close> on limit
  are checked before the body runs; the body filters, then slices.
\<close>

definition read_products ::
  "int \<Rightarrow> int \<Rightarrow> bool option \<Rightarrow> state \<Rightarrow> (error + Product list) \<times> state" where
  "read_products skip limit in_stock_q s =
     (if \<not> (0 \<le> skip \<and> 1 \<le> limit \<and> limit \<le> 100) then (Inl ValidationError, s)
      else
        let filtered_items = dict_values (fake_db s);
            filtered_items =
              (case in_stock_q of
                 None \<Rightarrow> filtered_items
               | Some q \<Rightarrow> filter (\<lambda>item. in_stock item = q) filtered_items)
        in (Inr (py_slice filtered_items skip (skip + limit)), s))"

text \<open>\<^verbatim>\<open>read_product\<close>: the path constraint \<^verbatim>\<open>gt=0\<close>, the 404 guard, then the lookup.\<close>

definition read_product :: "int \<Rightarrow> state \<Rightarrow> (error + Product) \<times> state" where
  "read_product product_id s =
     (if \<not> 0 < product_id then (Inl ValidationError, s)
      else if \<not> dict_contains product_id (fake_db s) then (Inl NotFound, s)
      else
        (case dict_getitem (fake_db s) product_id of
           None \<Rightarrow> (Inl InternalError, s)
         | Some p \<Rightarrow> (Inr p, s)))"

text \<open>
  \<^verbatim>\<open>create_product\<close>: the body is validated as a \<^verbatim>\<open>ProductCreate\<close> before the handler
  runs; the handler builds the product from the counter and the clock, stores it under
  the counter and increments the counter. The result \<open>Inl ValidationError\<close> is the
  validation error raised for the request, before the handler; the answer that the
  client gets for it is computed by \<open>post_products\<close> below.
\<close>

definition create_product ::
  "datetime \<Rightarrow> request_body \<Rightarrow> state \<Rightarrow> (error + Product) \<times> state" where
  "create_product now b s =
     (case validate_ProductCreate b of
        Inl e \<Rightarrow> (Inl e, s)
      | Inr product \<Rightarrow>
          (case new_Product (product_counter s) now product of
             Inl e \<Rightarrow> (Inl e, s)
           | Inr db_product \<Rightarrow>
               (Inr db_product,
                s\<lparr>fake_db := dict_setitem (fake_db s) (product_counter s) db_product,
                  product_counter := product_counter s + 1\<rparr>)))"

text \<open>
  The answer to a refused body. The validation error lists one entry per failing field,
  and each entry echoes the input that failed: the value of a field that breaks its
  constraint, the whole body for a required field that is missing. The default handler
  \<^verbatim>\<open>request_validation_exception_handler\<close> renders the entries as the JSON body of a
  422 answer, and the JSON renderer runs \<^verbatim>\<open>json.dumps\<close> with \<^verbatim>\<open>allow_nan=False\<close>, which
  raises at a float that is not finite; raised inside the handler of the error, that is
  an internal error, the answer 500.

  \<open>json_finite\<close> is the check of \<^verbatim>\<open>allow_nan=False\<close>; \<open>body_json\<close> is the body as it was
  decoded (the order of its keys plays no role here); \<open>error_inputs\<close> lists the inputs
  that the entries echo, the name's before the price's.
\<close>

primrec json_finite :: "json \<Rightarrow> bool" where
  "json_finite JNull = True"
| "json_finite (JBool v) = True"
| "json_finite (JNum x) = (case x of Finite r \<Rightarrow> True | PosInf \<Rightarrow> False
                                   | NegInf \<Rightarrow> False | NaN \<Rightarrow> False)"
| "json_finite (JStr t) = True"
| "json_finite (JArr xs) = list_all (\<lambda>v. v) (map json_finite xs)"
| "json_finite (JObj kvs) = list_all snd (map (map_prod (\<lambda>k. k) json_finite) kvs)"

definition body_json :: "request_body \<Rightarrow> json" where
  "body_json b =
     JObj ((case body_name b of None \<Rightarrow> [] | Some n \<Rightarrow> [(str_lit ''name'', JStr n)])
         @ (case body_description b of
              None \<Rightarrow> [] | Some d \<Rightarrow> [(str_lit ''description'', JStr d)])
         @ (case body_price b of None \<Rightarrow> [] | Some p \<Rightarrow> [(str_lit ''price'', JNum p)])
         @ (case body_in_stock b of
              None \<Rightarrow> [] | Some v \<Rightarrow> [(str_lit ''in_stock'', JBool v)])
         @ body_extra b)"

definition error_inputs :: "request_body \<Rightarrow> json list" where
  "error_inputs b =
     (case body_name b of
        None \<Rightarrow> [body_json b]
      | Some n \<Rightarrow> if 1 \<le> length n \<and> length n \<le> 100 then [] else [JStr n])
     @ (case body_price b of
          None \<Rightarrow> [body_json b]
        | Some p \<Rightarrow> if float_gt p 0 then [] else [JNum p])"

definition request_validation_exception_handler :: "json list \<Rightarrow> error" where
  "request_validation_exception_handler inputs =
     (if list_all json_finite inputs then ValidationError else InternalError)"

text \<open>
  The route \<^verbatim>\<open>POST /products/\<close> as the client sees it: a validation error raised for
  the request goes through the handler above, and everything else is the result of
  \<^verbatim>\<open>create_product\<close>.
\<close>

definition post_products ::
  "datetime \<Rightarrow> request_body \<Rightarrow> state \<Rightarrow> (error + Product) \<times> state" where
  "post_products now b s =
     (case create_product now b s of
        (Inl e, s') \<Rightarrow>
          (Inl (if e = ValidationError
                then request_validation_exception_handler (error_inputs b) else e), s')
      | (Inr db_product, s') \<Rightarrow> (Inr db_product, s'))"

text \<open>
  \<^verbatim>\<open>delete_product\<close>: the path constraint, the 404 guard, the removal, and the message
  dictionary with the identifier formatted into it.
\<close>

definition delete_product ::
  "int \<Rightarrow> state \<Rightarrow> (error + (py_str, py_str) dict) \<times> state" where
  "delete_product product_id s =
     (if \<not> 0 < product_id then (Inl ValidationError, s)
      else if \<not> dict_contains product_id (fake_db s) then (Inl NotFound, s)
      else
        (case dict_delitem (fake_db s) product_id of
           None \<Rightarrow> (Inl InternalError, s)
         | Some d \<Rightarrow>
             (Inr [(str_lit ''message'',
                    str_lit ''Product '' @ str_int product_id
                      @ str_lit '' deleted successfully'')],
              s\<lparr>fake_db := d\<rparr>)))"

section \<open>Sequences of requests\<close>

datatype request =
    Create datetime request_body
  | Read int
  | ListAll int int "bool option"
  | Delete int

datatype response =
    Created "error + Product"
  | Found "error + Product"
  | Listed "error + Product list"
  | Deleted "error + (py_str, py_str) dict"

fun dispatch :: "request \<Rightarrow> state \<Rightarrow> response \<times> state" where
  "dispatch (Create now b) s = (let (r, s') = create_product now b s in (Created r, s'))"
| "dispatch (Read i) s = (let (r, s') = read_product i s in (Found r, s'))"
| "dispatch (ListAll skip limit q) s =
     (let (r, s') = read_products skip limit q s in (Listed r, s'))"
| "dispatch (Delete i) s = (let (r, s') = delete_product i s in (Deleted r, s'))"

text \<open>
  \<open>exec s rs\<close> is the state after the requests \<open>rs\<close>, served in order from \<open>s\<close>, and
  \<open>responses s rs\<close> the answers given on the way.
\<close>

fun exec :: "state \<Rightarrow> request list \<Rightarrow> state" where
  "exec s [] = s"
| "exec s (r # rs) = exec (snd (dispatch r s)) rs"

fun responses :: "state \<Rightarrow> request list \<Rightarrow> response list" where
  "responses s [] = []"
| "responses s (r # rs) = fst (dispatch r s) # responses (snd (dispatch r s)) rs"

text \<open>The products that successful creates returned, in the order of the creates.\<close>

fun created :: "response list \<Rightarrow> Product list" where
  "created [] = []"
| "created (Created (Inr p) # rs) = p # created rs"
| "created (r # rs) = created rs"

text \<open>
  The store invariant: the counter is at least 1, every key lies in \<open>[1, counter)\<close>, and
  the product under a key carries that key as its identifier.
\<close>

definition store_inv :: "state \<Rightarrow> bool" where
  "store_inv s \<longleftrightarrow>
     1 \<le> product_counter s \<and>
     list_all (\<lambda>(k, p). 1 \<le> k \<and> k < product_counter s \<and> id_num p = k) (fake_db s)"

subsection \<open>Example inputs\<close>

text \<open>The example body that the source documents for \<^verbatim>\<open>create_product\<close>, and its product.\<close>

definition example_body :: request_body where
  "example_body =
     \<lparr>body_name = Some (str_lit ''Webcam 1080p''),
      body_description = Some (str_lit ''Full HD webcam with built-in microphone.''),
      body_price = Some (Finite 49.95),
      body_in_stock = Some True,
      body_extra = []\<rparr>"

definition example_product :: "int \<Rightarrow> datetime \<Rightarrow> Product" where
  "example_product i t =
     \<lparr>name = str_lit ''Webcam 1080p'',
      description = Some (str_lit ''Full HD webcam with built-in microphone.''),
      price = Finite 49.95, in_stock = True, id_num = i, created_at = t\<rparr>"

section \<open>Facts about dictionaries and slices\<close>

lemma dict_contains_keys: "dict_contains k d \<longleftrightarrow> k \<in> set (dict_keys d)"
  by (induction d) (auto simp: dict_keys_def)

lemma dict_getitem_map_of: "dict_getitem d k = map_of d k"
  by (induction d) auto

lemma dict_getitem_contains: "dict_contains k d \<Longrightarrow> \<exists>v. dict_getitem d k = Some v"
  by (induction d) auto

lemma dict_getitem_absent: "\<not> dict_contains k d \<Longrightarrow> dict_getitem d k = None"
  by (induction d) auto

lemma dict_getitem_mem: "dict_getitem d k = Some v \<Longrightarrow> (k, v) \<in> set d"
  by (induction d) (auto split: if_splits)

lemma dict_setitem_fresh: "\<not> dict_contains k d \<Longrightarrow> dict_setitem d k v = d @ [(k, v)]"
  by (induction d) auto

lemma dict_getitem_setitem:
  "dict_getitem (dict_setitem d k v) j = (if j = k then Some v else dict_getitem d j)"
  by (induction d) auto

lemma dict_delitem_contains: "dict_contains k d \<Longrightarrow> \<exists>d'. dict_delitem d k = Some d'"
  by (induction d) auto

lemma dict_delitem_absent: "\<not> dict_contains k d \<Longrightarrow> dict_delitem d k = None"
  by (induction d) auto

lemma dict_delitem_length: "dict_delitem d k = Some d' \<Longrightarrow> length d = Suc (length d')"
  by (induction d arbitrary: d') (auto split: if_splits option.splits)

lemma dict_delitem_filter:
  "distinct (dict_keys d) \<Longrightarrow> dict_delitem d k = Some d' \<Longrightarrow> d' = filter (\<lambda>(j, v). j \<noteq> k) d"
proof (induction d arbitrary: d')
  case Nil
  then show ?case by simp
next
  case (Cons a d)
  obtain j v where a: "a = (j, v)" by (cases a)
  show ?case
  proof (cases "k = j")
    case True
    with Cons.prems a have "d' = d" and "j \<notin> fst ` set d"
      by (auto simp: dict_keys_def)
    then have "filter (\<lambda>(i, v). i \<noteq> j) d = d"
      by (force simp: filter_id_conv)
    with True a \<open>d' = d\<close> show ?thesis by simp
  next
    case False
    with Cons.prems a obtain d0 where d0: "dict_delitem d k = Some d0" "d' = (j, v) # d0"
      by (auto split: option.splits)
    from Cons.prems a have "distinct (dict_keys d)" by (simp add: dict_keys_def)
    from Cons.IH [OF this d0(1)] False a d0(2) show ?thesis by auto
  qed
qed

lemma dict_delitem_subseq: "dict_delitem d k = Some d' \<Longrightarrow> subseq d' d"
  by (induction d arbitrary: d') (auto split: if_splits option.splits)

lemma dict_delitem_getitem:
  "distinct (dict_keys d) \<Longrightarrow> dict_delitem d k = Some d' \<Longrightarrow>
   dict_getitem d' j = (if j = k then None else dict_getitem d j)"
proof (induction d arbitrary: d')
  case Nil
  then show ?case by simp
next
  case (Cons a d)
  obtain i v where a: "a = (i, v)" by (cases a)
  show ?case
  proof (cases "k = i")
    case True
    with Cons.prems a have "d' = d" and "\<not> dict_contains i d"
      by (auto simp: dict_keys_def dict_contains_keys)
    with True a show ?thesis by (auto simp: dict_getitem_absent)
  next
    case False
    with Cons.prems a obtain d0 where d0: "dict_delitem d k = Some d0" "d' = (i, v) # d0"
      by (auto split: option.splits)
    from Cons.prems a have "distinct (dict_keys d)" by (simp add: dict_keys_def)
    from Cons.IH [OF this d0(1)] False a d0(2) show ?thesis by auto
  qed
qed

lemma dict_keys_setitem_fresh:
  "\<not> dict_contains k d \<Longrightarrow> dict_keys (dict_setitem d k v) = dict_keys d @ [k]"
  by (simp add: dict_setitem_fresh dict_keys_def)

lemma dict_keys_delitem:
  "dict_delitem d k = Some d' \<Longrightarrow> subseq (dict_keys d') (dict_keys d)"
  unfolding dict_keys_def by (rule subseq_map) (rule dict_delitem_subseq)

lemma py_slice_take_drop:
  "py_slice xs a (a + n) = take (nat n) (drop (nat a) xs)" if "0 \<le> a" "0 \<le> n"
proof -
  let ?len = "int (length xs)"
  have lo: "slice_bound ?len a = min a ?len"
    using that by (simp add: slice_bound_def)
  have hi: "slice_bound ?len (a + n) = min (a + n) ?len"
    using that by (simp add: slice_bound_def)
  show ?thesis
  proof (cases "a < ?len \<and> 0 < n")
    case True
    then have "nat (min (a + n) ?len - a) = min (nat n) (length xs - nat a)"
      using that by (auto simp: min_def)
    with True show ?thesis
      using that by (simp add: py_slice_def lo hi Let_def min_def take_drop)
         (auto simp: min_def)
  next
    case False
    then have "n = 0 \<or> length xs \<le> nat a" using that by auto
    with False show ?thesis
      using that by (auto simp: py_slice_def lo hi Let_def min_def)
  qed
qed

section \<open>Facts about the endpoints\<close>

lemma new_Product_valid:
  "validate_ProductCreate b = Inr product \<Longrightarrow>
   new_Product i t product =
     Inr \<lparr>name = name product, description = description product, price = price product,
          in_stock = in_stock product, id_num = i, created_at = t\<rparr>"
  by (auto simp: validate_ProductCreate_def new_Product_def split: option.splits if_splits)

lemma create_product_Inr:
  assumes "create_product now b s = (Inr p, s')"
  shows "id_num p = product_counter s"
    and "created_at p = now"
    and "s' = s\<lparr>fake_db := dict_setitem (fake_db s) (product_counter s) p,
               product_counter := product_counter s + 1\<rparr>"
  using assms
  by (auto simp: create_product_def new_Product_def split: sum.splits if_splits)

lemma create_product_Inl:
  "create_product now b s = (Inl e, s') \<Longrightarrow> e = ValidationError \<and> s' = s"
  by (auto simp: create_product_def new_Product_valid split: sum.splits)
     (auto simp: validate_ProductCreate_def split: option.splits if_splits)

lemma create_product_valid:
  assumes "body_name b = Some n" "body_price b = Some pr" "field_constraints n pr"
  shows "\<exists>p. create_product now b s =
           (Inr p, s\<lparr>fake_db := dict_setitem (fake_db s) (product_counter s) p,
                     product_counter := product_counter s + 1\<rparr>)
         \<and> id_num p = product_counter s \<and> created_at p = now \<and> name p = n \<and> price p = pr"
  using assms
  by (simp add: create_product_def validate_ProductCreate_def new_Product_def)

lemma read_product_state: "snd (read_product i s) = s"
  by (simp add: read_product_def split: option.splits)

lemma read_products_state: "snd (read_products skip limit q s) = s"
  by (simp add: read_products_def Let_def)

lemma delete_product_Inr:
  assumes "delete_product i s = (Inr m, s')"
  shows "\<exists>d. dict_delitem (fake_db s) i = Some d \<and> s' = s\<lparr>fake_db := d\<rparr>"
  using assms by (auto simp: delete_product_def split: if_splits option.splits)

lemma delete_product_Inl: "delete_product i s = (Inl e, s') \<Longrightarrow> s' = s"
  by (auto simp: delete_product_def split: if_splits option.splits)

text \<open>What one request does to the state and to the list of created products.\<close>

lemma dispatch_cases [case_names create delete other]:
  obtains
    (create) now b p where
      "r = Create now b"
      "fst (dispatch r s) = Created (Inr p)"
      "snd (dispatch r s) = s\<lparr>fake_db := dict_setitem (fake_db s) (product_counter s) p,
                               product_counter := product_counter s + 1\<rparr>"
      "id_num p = product_counter s"
  | (delete) i d where
      "r = Delete i"
      "created [fst (dispatch r s)] = []"
      "dict_delitem (fake_db s) i = Some d"
      "snd (dispatch r s) = s\<lparr>fake_db := d\<rparr>"
  | (other)
      "created [fst (dispatch r s)] = []"
      "snd (dispatch r s) = s"
proof (cases r)
  case (Create now b)
  obtain res s' where cp: "create_product now b s = (res, s')" by (cases "create_product now b s")
  show ?thesis
  proof (cases res)
    case (Inl e)
    with cp Create create_product_Inl [of now b s e s'] show ?thesis
      by (intro other) simp_all
  next
    case (Inr p)
    with cp Create create_product_Inr [of now b s p s'] show ?thesis
      by (intro create [of now b p]) simp_all
  qed
next
  case (Read i)
  then show ?thesis
    using read_product_state [of i s] by (intro other) (simp_all add: split_beta)
next
  case (ListAll skip limit q)
  then show ?thesis
    using read_products_state [of skip limit q s] by (intro other) (simp_all add: split_beta)
next
  case (Delete i)
  obtain res s' where dp: "delete_product i s = (res, s')" by (cases "delete_product i s")
  show ?thesis
  proof (cases res)
    case (Inl e)
    with dp Delete delete_product_Inl [of i s e s'] show ?thesis
      by (intro other) simp_all
  next
    case (Inr m)
    with dp delete_product_Inr [of i s m s'] obtain d
      where "dict_delitem (fake_db s) i = Some d" "s' = s\<lparr>fake_db := d\<rparr>" by blast
    with dp Delete Inr show ?thesis
      by (intro delete [of i d]) simp_all
  qed
qed

lemma created_skip: "created [x] = [] \<Longrightarrow> created (x # xs) = created xs"
proof (cases x)
  case (Created res)
  then show "created [x] = [] \<Longrightarrow> ?thesis" by (cases res) simp_all
qed simp_all

subsection \<open>The invariant\<close>

lemma store_inv_fresh:
  assumes "store_inv s"
  shows "\<not> dict_contains (product_counter s) (fake_db s)"
proof
  assume "dict_contains (product_counter s) (fake_db s)"
  then obtain p where "(product_counter s, p) \<in> set (fake_db s)"
    by (auto simp: dict_contains_keys dict_keys_def)
  with assms show False
    by (auto simp: store_inv_def list_all_iff)
qed

lemma store_inv_init: "store_inv init_state"
  by (simp add: store_inv_def init_state_def)

lemma store_inv_create:
  assumes "store_inv s" "id_num p = product_counter s"
  shows "store_inv (s\<lparr>fake_db := dict_setitem (fake_db s) (product_counter s) p,
                      product_counter := product_counter s + 1\<rparr>)"
  using assms store_inv_fresh [OF assms(1)]
  by (auto simp: store_inv_def dict_setitem_fresh list_all_iff)

lemma store_inv_delete:
  assumes "store_inv s" "dict_delitem (fake_db s) i = Some d"
  shows "store_inv (s\<lparr>fake_db := d\<rparr>)"
proof -
  have "set d \<subseteq> set (fake_db s)"
    using dict_delitem_subseq [OF assms(2)] by (auto dest: list_emb_set)
  with assms(1) show ?thesis
    by (auto simp: store_inv_def list_all_iff)
qed

lemma store_inv_dispatch: "store_inv s \<Longrightarrow> store_inv (snd (dispatch r s))"
  by (cases r s rule: dispatch_cases) (simp_all add: store_inv_create store_inv_delete)

lemma store_inv_exec: "store_inv s \<Longrightarrow> store_inv (exec s rs)"
  by (induction rs arbitrary: s) (simp_all add: store_inv_dispatch)

lemma sorted_wrt_subseq: "subseq xs ys \<Longrightarrow> sorted_wrt R ys \<Longrightarrow> sorted_wrt R xs"
  by (induction rule: list_emb.induct) (auto dest: list_emb_set)

lemma distinct_subseq: "subseq xs ys \<Longrightarrow> distinct ys \<Longrightarrow> distinct xs"
  by (induction rule: list_emb.induct) (auto dest: list_emb_set)

text \<open>The keys of the store stay distinct, as those of a dictionary are.\<close>

lemma distinct_keys_dispatch:
  assumes "store_inv s" "distinct (dict_keys (fake_db s))"
  shows "distinct (dict_keys (fake_db (snd (dispatch r s))))"
proof (cases r s rule: dispatch_cases)
  case (create now b p)
  with assms store_inv_fresh [OF assms(1)] show ?thesis
    by (simp add: dict_keys_setitem_fresh dict_contains_keys)
next
  case (delete i d)
  with assms dict_keys_delitem [OF delete(3)] show ?thesis
    by (auto dest: distinct_subseq)
next
  case other
  with assms show ?thesis by simp
qed

lemma distinct_keys_exec:
  "store_inv s \<Longrightarrow> distinct (dict_keys (fake_db s)) \<Longrightarrow>
   distinct (dict_keys (fake_db (exec s rs)))"
  by (induction rs arbitrary: s) (simp_all add: store_inv_dispatch distinct_keys_dispatch)

lemma reachable_inv: "store_inv (exec init_state rs)"
  by (simp add: store_inv_exec store_inv_init)

lemma reachable_distinct: "distinct (dict_keys (fake_db (exec init_state rs)))"
  using distinct_keys_exec [OF store_inv_init, of rs]
  by (simp add: init_state_def dict_keys_def)

subsection \<open>Identifiers along a run\<close>

lemma exec_counter:
  "product_counter (exec s rs) = product_counter s + int (length (created (responses s rs)))"
proof (induction rs arbitrary: s)
  case Nil
  show ?case by simp
next
  case (Cons r rs)
  show ?case
  proof (cases r s rule: dispatch_cases)
    case (create now b p)
    from create(2,3) show ?thesis by (simp add: Cons.IH)
  next
    case (delete i d)
    from delete(4) created_skip [OF delete(2)] show ?thesis by (simp add: Cons.IH)
  next
    case other
    from other(2) created_skip [OF other(1)] show ?thesis by (simp add: Cons.IH)
  qed
qed

lemma created_ids:
  "map id_num (created (responses s rs)) =
     [product_counter s .. product_counter s + int (length (created (responses s rs))) - 1]"
proof (induction rs arbitrary: s)
  case Nil
  show ?case by simp
next
  case (Cons r rs)
  show ?case
  proof (cases r s rule: dispatch_cases)
    case (create now b p)
    let ?n = "int (length (created (responses (snd (dispatch r s)) rs)))"
    have "[product_counter s .. product_counter s + ?n] =
            product_counter s # [product_counter s + 1 .. product_counter s + ?n]"
      by (rule upto_rec1) simp
    with create(2,3,4) Cons.IH [of "snd (dispatch r s)"] show ?thesis
      by (simp add: add.commute add.left_commute)
  next
    case (delete i d)
    from delete(4) created_skip [OF delete(2)] Cons.IH [of "snd (dispatch r s)"]
    show ?thesis by simp
  next
    case other
    from other(2) created_skip [OF other(1)] Cons.IH [of "snd (dispatch r s)"]
    show ?thesis by simp
  qed
qed

lemma create_example:
  "create_product t example_body s =
     (Inr (example_product (product_counter s) t),
      s\<lparr>fake_db := dict_setitem (fake_db s) (product_counter s)
                      (example_product (product_counter s) t),
        product_counter := product_counter s + 1\<rparr>)"
  by (simp add: create_product_def validate_ProductCreate_def new_Product_def
      example_body_def example_product_def field_constraints_def str_lit_def)

lemma dispatch_create_example:
  "dispatch (Create t example_body) s =
     (Created (Inr (example_product (product_counter s) t)),
      s\<lparr>fake_db := dict_setitem (fake_db s) (product_counter s)
                      (example_product (product_counter s) t),
        product_counter := product_counter s + 1\<rparr>)"
  by (simp add: create_example)

section \<open>Properties of the service\<close>

text \<open>
  C1. In every sequence of requests served from the initial state, the identifiers of the
  products that the successful creates return are, in order, 1, 2, ..., n: each is
  greater than all earlier ones, none is given twice, whatever was deleted in between,
  and the counter ends at n + 1.
\<close>

theorem create_ids_sequential:
  "map id_num (created (responses init_state rs)) =
     [1 .. int (length (created (responses init_state rs)))]
   \<and> sorted_wrt (<) (map id_num (created (responses init_state rs)))
   \<and> distinct (map id_num (created (responses init_state rs)))
   \<and> product_counter (exec init_state rs) =
       1 + int (length (created (responses init_state rs)))"
proof -
  have c: "product_counter init_state = 1" by (simp add: init_state_def)
  have ids: "map id_num (created (responses init_state rs)) =
     [1 .. int (length (created (responses init_state rs)))]"
    using created_ids [of init_state rs] by (simp add: c)
  have "sorted_wrt (<) [1 .. int (length (created (responses init_state rs)))]"
    and "distinct [1 .. int (length (created (responses init_state rs)))]"
    by simp_all
  with ids exec_counter [of init_state rs] c show ?thesis by simp
qed

lemma delete_first:
  "dispatch (Delete 1) \<lparr>fake_db = [(1, p)], product_counter = 2\<rparr> =
     (Deleted (Inr [(str_lit ''message'',
                     str_lit ''Product '' @ str_int 1 @ str_lit '' deleted successfully'')]),
      \<lparr>fake_db = [], product_counter = 2\<rparr>)"
  by (simp add: delete_product_def)

theorem create_ids_sequential_witness:
  "map id_num (created (responses init_state
      [Create 10 example_body, Delete 1, Create 20 example_body])) = [1, 2]
   \<and> product_counter (exec init_state
      [Create 10 example_body, Delete 1, Create 20 example_body]) = 3"
proof -
  have "created (responses init_state
      [Create 10 example_body, Delete 1, Create 20 example_body])
      = [example_product 1 10, example_product 2 20]"
    by (simp add: dispatch_create_example init_state_def delete_first del: dispatch.simps)
  with create_ids_sequential [of "[Create 10 example_body, Delete 1, Create 20 example_body]"]
  show ?thesis by (simp add: example_product_def)
qed

text \<open>
  C2. With skip at least 0 and limit between 1 and 100, listing keeps, when a filter is
  given, the stored products whose \<open>in_stock\<close> equals it, in their order, and returns of
  that sequence the items from index skip on, at most limit of them. A skip at or past
  the end of the filtered sequence gives the empty list and no error. The state is
  not changed.
\<close>

theorem read_products_window:
  assumes "0 \<le> skip" and "1 \<le> limit" and "limit \<le> 100"
  shows "read_products skip limit q s =
           (Inr (take (nat limit) (drop (nat skip)
                  (case q of
                     None \<Rightarrow> dict_values (fake_db s)
                   | Some v \<Rightarrow> filter (\<lambda>p. in_stock p = v) (dict_values (fake_db s))))),
            s)
         \<and> (int (length (case q of
                            None \<Rightarrow> dict_values (fake_db s)
                          | Some v \<Rightarrow> filter (\<lambda>p. in_stock p = v) (dict_values (fake_db s))))
              \<le> skip
            \<longrightarrow> read_products skip limit q s = (Inr [], s))"
proof -
  let ?xs = "case q of
               None \<Rightarrow> dict_values (fake_db s)
             | Some v \<Rightarrow> filter (\<lambda>p. in_stock p = v) (dict_values (fake_db s))"
  from assms have "read_products skip limit q s = (Inr (py_slice ?xs skip (skip + limit)), s)"
    by (simp add: read_products_def Let_def)
  also from assms have "py_slice ?xs skip (skip + limit) = take (nat limit) (drop (nat skip) ?xs)"
    by (intro py_slice_take_drop) simp_all
  finally have window:
    "read_products skip limit q s = (Inr (take (nat limit) (drop (nat skip) ?xs)), s)" .
  have "drop (nat skip) ?xs = []" if "int (length ?xs) \<le> skip"
    using that by simp
  with window show ?thesis by simp
qed

theorem read_products_window_witness:
  "read_products 2 2 None
     \<lparr>fake_db = [(1, example_product 1 0), (2, example_product 2 0), (3, example_product 3 0),
                 (4, example_product 4 0), (5, example_product 5 0)],
      product_counter = 6\<rparr> =
     (Inr [example_product 3 0, example_product 4 0],
      \<lparr>fake_db = [(1, example_product 1 0), (2, example_product 2 0), (3, example_product 3 0),
                  (4, example_product 4 0), (5, example_product 5 0)],
       product_counter = 6\<rparr>)
   \<and> read_products 10 2 None
     \<lparr>fake_db = [(1, example_product 1 0), (2, example_product 2 0), (3, example_product 3 0),
                 (4, example_product 4 0), (5, example_product 5 0)],
      product_counter = 6\<rparr> =
     (Inr [],
      \<lparr>fake_db = [(1, example_product 1 0), (2, example_product 2 0), (3, example_product 3 0),
                  (4, example_product 4 0), (5, example_product 5 0)],
       product_counter = 6\<rparr>)
   \<and> read_products 0 10 (Some False)
     \<lparr>fake_db = [(1, example_product 1 0), (2, example_product 2 0),
                 (3, (example_product 3 0)\<lparr>in_stock := False\<rparr>)],
      product_counter = 4\<rparr> =
     (Inr [(example_product 3 0)\<lparr>in_stock := False\<rparr>],
      \<lparr>fake_db = [(1, example_product 1 0), (2, example_product 2 0),
                 (3, (example_product 3 0)\<lparr>in_stock := False\<rparr>)],
       product_counter = 4\<rparr>)"
proof -
  have h: "(0::int) \<le> 2" "(1::int) \<le> 2" "(2::int) \<le> 100"
    "(0::int) \<le> 10" "(0::int) \<le> 0" "(1::int) \<le> 10" "(10::int) \<le> 100"
    by simp_all
  show ?thesis
    using read_products_window [OF h(1) h(2) h(3), of None
        "\<lparr>fake_db = [(1, example_product 1 0), (2, example_product 2 0),
                     (3, example_product 3 0), (4, example_product 4 0),
                     (5, example_product 5 0)],
          product_counter = 6\<rparr>"]
      read_products_window [OF h(4) h(2) h(3), of None
        "\<lparr>fake_db = [(1, example_product 1 0), (2, example_product 2 0),
                     (3, example_product 3 0), (4, example_product 4 0),
                     (5, example_product 5 0)],
          product_counter = 6\<rparr>"]
      read_products_window [OF h(5) h(6) h(7), of "Some False"
        "\<lparr>fake_db = [(1, example_product 1 0), (2, example_product 2 0),
                     (3, (example_product 3 0)\<lparr>in_stock := False\<rparr>)],
          product_counter = 4\<rparr>"]
    by (simp add: dict_values_def example_product_def)
qed

lemma create_product_rejected:
  assumes "(\<exists>n. body_name b = Some n \<and> (length n = 0 \<or> 100 < length n))
           \<or> (\<exists>pr. body_price b = Some pr \<and> \<not> float_gt pr 0)"
  shows "create_product now b s = (Inl ValidationError, s)"
  using assms
  by (auto simp: create_product_def validate_ProductCreate_def field_constraints_def
      split: option.splits)

lemma post_products_rejected:
  assumes "(\<exists>n. body_name b = Some n \<and> (length n = 0 \<or> 100 < length n))
           \<or> (\<exists>pr. body_price b = Some pr \<and> \<not> float_gt pr 0)"
  shows "post_products now b s =
           (Inl (request_validation_exception_handler (error_inputs b)), s)"
  by (simp add: post_products_def create_product_rejected [OF assms])

lemma post_products_nonfinite_price:
  assumes "body_price b = Some pr" and "pr = NaN \<or> pr = NegInf"
  shows "post_products now b s = (Inl InternalError, s)"
proof -
  from assms have "\<not> float_gt pr 0" by auto
  with assms(1)
  have "(\<exists>n. body_name b = Some n \<and> (length n = 0 \<or> 100 < length n))
           \<or> (\<exists>pr. body_price b = Some pr \<and> \<not> float_gt pr 0)"
    by blast
  then have "post_products now b s =
           (Inl (request_validation_exception_handler (error_inputs b)), s)"
    by (rule post_products_rejected)
  moreover from assms
  have "request_validation_exception_handler (error_inputs b) = InternalError"
    by (auto simp: request_validation_exception_handler_def error_inputs_def)
  ultimately show ?thesis by simp
qed


text \<open>
  C5. Reading an identifier greater than 0 that is not in the store answers not found
  and returns the state unchanged; in a state that requests have led to, reading an
  identifier that is in the store returns the product stored under it, and the state
  unchanged. No read changes the state.
\<close>

theorem read_product_found_or_not:
  "(0 < i \<and> \<not> dict_contains i (fake_db s) \<longrightarrow> read_product i s = (Inl NotFound, s))
   \<and> (dict_getitem (fake_db (exec init_state rs)) i = Some p \<longrightarrow>
        read_product i (exec init_state rs) = (Inr p, exec init_state rs))
   \<and> snd (read_product i s) = s"
proof (intro conjI impI)
  assume "0 < i \<and> \<not> dict_contains i (fake_db s)"
  then show "read_product i s = (Inl NotFound, s)"
    by (simp add: read_product_def)
next
  let ?s = "exec init_state rs"
  assume got: "dict_getitem (fake_db ?s) i = Some p"
  then have mem: "(i, p) \<in> set (fake_db ?s)" by (rule dict_getitem_mem)
  with reachable_inv [of rs] have "0 < i"
    by (auto simp: store_inv_def list_all_iff)
  moreover from mem have "dict_contains i (fake_db ?s)"
    by (force simp: dict_contains_keys dict_keys_def)
  ultimately show "read_product i ?s = (Inr p, ?s)"
    using got by (simp add: read_product_def)
next
  show "snd (read_product i s) = s" by (rule read_product_state)
qed

theorem read_product_found_or_not_witness:
  "read_product 99999 init_state = (Inl NotFound, init_state)
   \<and> read_product 1 (exec init_state [Create 10 example_body])
       = (Inr (example_product 1 10), exec init_state [Create 10 example_body])"
proof -
  have s: "exec init_state [Create 10 example_body]
             = \<lparr>fake_db = [(1, example_product 1 10)], product_counter = 2\<rparr>"
    by (simp add: dispatch_create_example init_state_def del: dispatch.simps)
  have "dict_getitem (fake_db (exec init_state [Create 10 example_body])) 1
          = Some (example_product 1 10)"
    unfolding s by simp
  moreover have "0 < (99999::int) \<and> \<not> dict_contains 99999 (fake_db init_state)"
    by (simp add: init_state_def)
  ultimately show ?thesis
    using read_product_found_or_not [where i = 99999 and s = init_state]
      read_product_found_or_not [where i = 1 and rs = "[Create 10 example_body]"
        and p = "example_product 1 10"]
    by blast
qed

text \<open>
  C10. Keys of the request body that the create model does not declare, a client's
  \<open>id\<close> or \<open>created_at\<close> among them, have no influence: the answer and the new state
  are the same as without them. When the declared fields are valid the create
  succeeds, and the product returned and stored carries the counter as its identifier
  and the clock's reading as its creation time.
\<close>

theorem create_product_ignores_extra:
  "create_product now (b\<lparr>body_extra := e\<rparr>) s = create_product now (b\<lparr>body_extra := []\<rparr>) s
   \<and> (body_name b = Some n \<and> 1 \<le> length n \<and> length n \<le> 100
        \<and> body_price b = Some pr \<and> float_gt pr 0 \<longrightarrow>
      (\<exists>p s'. create_product now (b\<lparr>body_extra := e\<rparr>) s = (Inr p, s')
         \<and> id_num p = product_counter s \<and> created_at p = now
         \<and> dict_getitem (fake_db s') (product_counter s) = Some p))"
proof (intro conjI impI)
  show "create_product now (b\<lparr>body_extra := e\<rparr>) s = create_product now (b\<lparr>body_extra := []\<rparr>) s"
    by (simp add: create_product_def validate_ProductCreate_def split: option.splits)
next
  assume "body_name b = Some n \<and> 1 \<le> length n \<and> length n \<le> 100
        \<and> body_price b = Some pr \<and> float_gt pr 0"
  then have "body_name (b\<lparr>body_extra := e\<rparr>) = Some n"
    and "body_price (b\<lparr>body_extra := e\<rparr>) = Some pr"
    and "field_constraints n pr"
    by (simp_all add: field_constraints_def)
  from create_product_valid [OF this, of now s]
  show "\<exists>p s'. create_product now (b\<lparr>body_extra := e\<rparr>) s = (Inr p, s')
         \<and> id_num p = product_counter s \<and> created_at p = now
         \<and> dict_getitem (fake_db s') (product_counter s) = Some p"
    by (auto simp: dict_getitem_setitem)
qed

theorem create_product_ignores_extra_witness:
  "create_product 10
     (example_body\<lparr>body_extra :=
        [(str_lit ''id'', JNum (Finite 999)), (str_lit ''created_at'', JStr (str_lit ''2020''))]\<rparr>)
     init_state
   = (Inr (example_product 1 10),
      \<lparr>fake_db = [(1, example_product 1 10)], product_counter = 2\<rparr>)
   \<and> body_name example_body = Some (str_lit ''Webcam 1080p'')
   \<and> 1 \<le> length (str_lit ''Webcam 1080p'') \<and> length (str_lit ''Webcam 1080p'') \<le> 100
   \<and> body_price example_body = Some (Finite 49.95) \<and> float_gt (Finite 49.95) 0"
proof -
  have "example_body\<lparr>body_extra := []\<rparr> = example_body"
    by (simp add: example_body_def)
  moreover have "body_name example_body = Some (str_lit ''Webcam 1080p'')
    \<and> 1 \<le> length (str_lit ''Webcam 1080p'') \<and> length (str_lit ''Webcam 1080p'') \<le> 100
    \<and> body_price example_body = Some (Finite 49.95) \<and> float_gt (Finite 49.95) 0"
    by (simp add: example_body_def str_lit_def)
  ultimately show ?thesis
    using create_product_ignores_extra [where now = 10 and b = example_body and s = init_state
      and e = "[(str_lit ''id'', JNum (Finite 999)),
                (str_lit ''created_at'', JStr (str_lit ''2020''))]"
      and n = "str_lit ''Webcam 1080p''" and pr = "Finite 49.95"]
    by (simp add: create_example init_state_def)
qed

subsection \<open>Stored products and created products\<close>

lemma dict_contains_getitem: "dict_contains k d \<longleftrightarrow> dict_getitem d k \<noteq> None"
  by (induction d) auto

lemma subseq_py_slice: "subseq (py_slice xs a b) xs"
proof -
  have "subseq (take m (drop n xs)) xs" for m n
  proof -
    have "subseq (take m (drop n xs)) (drop n xs)"
      by (rule prefix_imp_subseq) (rule take_is_prefix)
    moreover have "subseq (drop n xs) xs"
      by (rule suffix_imp_subseq) (rule suffix_drop)
    ultimately show ?thesis by (rule subseq_order.trans)
  qed
  then show ?thesis by (simp add: py_slice_def Let_def)
qed

lemma read_products_subseq:
  assumes "read_products skip limit q s = (Inr xs, s')"
  shows "subseq xs (dict_values (fake_db s))"
proof -
  let ?ys = "case q of None \<Rightarrow> dict_values (fake_db s)
             | Some v \<Rightarrow> filter (\<lambda>item. in_stock item = v) (dict_values (fake_db s))"
  from assms have "xs = py_slice ?ys skip (skip + limit)"
    by (simp add: read_products_def Let_def split: if_splits)
  then have "subseq xs ?ys" by (simp add: subseq_py_slice)
  moreover have "subseq ?ys (dict_values (fake_db s))"
    by (cases q) simp_all
  ultimately show ?thesis by (rule subseq_order.trans)
qed

lemma values_subseq_created:
  "store_inv s \<Longrightarrow>
   subseq (dict_values (fake_db (exec s rs)))
          (dict_values (fake_db s) @ created (responses s rs))"
proof (induction rs arbitrary: s)
  case Nil
  show ?case by simp
next
  case (Cons r rs)
  let ?s1 = "snd (dispatch r s)"
  have inv1: "store_inv ?s1" using Cons.prems by (rule store_inv_dispatch)
  note ih = Cons.IH [OF inv1]
  show ?case
  proof (cases r s rule: dispatch_cases)
    case (create now b p)
    from store_inv_fresh [OF Cons.prems] create(3)
    have "dict_values (fake_db ?s1) = dict_values (fake_db s) @ [p]"
      by (simp add: dict_setitem_fresh dict_values_def)
    with ih create(2) show ?thesis by simp
  next
    case (delete i d)
    from dict_delitem_subseq [OF delete(3)] delete(4)
    have "subseq (dict_values (fake_db ?s1)) (dict_values (fake_db s))"
      by (simp add: dict_values_def subseq_map)
    then have "subseq (dict_values (fake_db ?s1) @ created (responses ?s1 rs))
                      (dict_values (fake_db s) @ created (responses ?s1 rs))"
      by simp
    with ih have "subseq (dict_values (fake_db (exec ?s1 rs)))
                         (dict_values (fake_db s) @ created (responses ?s1 rs))"
      by (rule subseq_order.trans)
    with created_skip [OF delete(2)] show ?thesis by simp
  next
    case other
    with ih created_skip [OF other(1)] show ?thesis by simp
  qed
qed

lemma created_distinct: "distinct (created (responses s rs))"
proof -
  have "distinct (map id_num (created (responses s rs)))"
    by (simp add: created_ids)
  then show ?thesis by (rule distinct_map [THEN iffD1, THEN conjunct1])
qed

lemma created_sorted: "sorted_wrt (\<lambda>p p'. id_num p < id_num p') (created (responses s rs))"
proof -
  have "sorted_wrt (<) (map id_num (created (responses s rs)))"
    by (simp add: created_ids)
  then show ?thesis by (simp add: sorted_wrt_map)
qed

lemma store_inv_ids:
  assumes "store_inv s"
  shows "map id_num (dict_values (fake_db s)) = dict_keys (fake_db s)"
  using assms
  by (auto simp: store_inv_def list_all_iff dict_values_def dict_keys_def)

text \<open>
  C3. A create with a valid body (a name of 1 to 100 characters and a price greater
  than 0), in any state that requests have led to, succeeds, and reading the returned
  identifier in the state it leaves returns the very product the create returned.
\<close>

theorem create_then_read:
  assumes "body_name b = Some n" and "1 \<le> length n" and "length n \<le> 100"
    and "body_price b = Some pr" and "float_gt pr 0"
  shows "\<exists>p s'. create_product now b (exec init_state rs) = (Inr p, s')
           \<and> read_product (id_num p) s' = (Inr p, s')"
proof -
  let ?s = "exec init_state rs"
  from assms have "field_constraints n pr" by (simp add: field_constraints_def)
  from create_product_valid [OF assms(1) assms(4) this, of now ?s]
  obtain p where p:
    "create_product now b ?s =
       (Inr p, ?s\<lparr>fake_db := dict_setitem (fake_db ?s) (product_counter ?s) p,
                  product_counter := product_counter ?s + 1\<rparr>)"
    "id_num p = product_counter ?s"
    by blast
  from reachable_inv [of rs] have "0 < product_counter ?s"
    by (simp add: store_inv_def)
  with p(2) have "read_product (id_num p)
        (?s\<lparr>fake_db := dict_setitem (fake_db ?s) (product_counter ?s) p,
            product_counter := product_counter ?s + 1\<rparr>)
      = (Inr p, ?s\<lparr>fake_db := dict_setitem (fake_db ?s) (product_counter ?s) p,
                   product_counter := product_counter ?s + 1\<rparr>)"
    by (simp add: read_product_def dict_contains_getitem dict_getitem_setitem)
  with p(1) show ?thesis by blast
qed

lemma exec_create_delete:
  "exec init_state [Create 10 example_body, Delete 1] = \<lparr>fake_db = [], product_counter = 2\<rparr>"
  by (simp add: dispatch_create_example init_state_def delete_product_def
      del: dispatch.simps(1))

theorem create_then_read_witness:
  "create_product 20 example_body (exec init_state [Create 10 example_body, Delete 1])
     = (Inr (example_product 2 20),
        \<lparr>fake_db = [(2, example_product 2 20)], product_counter = 3\<rparr>)
   \<and> read_product 2 \<lparr>fake_db = [(2, example_product 2 20)], product_counter = 3\<rparr>
     = (Inr (example_product 2 20),
        \<lparr>fake_db = [(2, example_product 2 20)], product_counter = 3\<rparr>)"
proof -
  have h: "body_name example_body = Some (str_lit ''Webcam 1080p'')"
    "1 \<le> length (str_lit ''Webcam 1080p'')" "length (str_lit ''Webcam 1080p'') \<le> 100"
    "body_price example_body = Some (Finite 49.95)" "float_gt (Finite 49.95) 0"
    by (simp_all add: example_body_def str_lit_def)
  have c: "create_product 20 example_body (exec init_state [Create 10 example_body, Delete 1])
     = (Inr (example_product 2 20),
        \<lparr>fake_db = [(2, example_product 2 20)], product_counter = 3\<rparr>)"
    unfolding exec_create_delete create_example by simp
  from create_then_read [OF h, of 20 "[Create 10 example_body, Delete 1]"]
  obtain p s' where ps:
    "create_product 20 example_body (exec init_state [Create 10 example_body, Delete 1])
       = (Inr p, s')"
    "read_product (id_num p) s' = (Inr p, s')"
    by blast
  from ps(1) have "p = example_product 2 20"
    and "s' = \<lparr>fake_db = [(2, example_product 2 20)], product_counter = 3\<rparr>"
    unfolding c by auto
  moreover have "id_num (example_product 2 20) = 2" by (simp add: example_product_def)
  ultimately show ?thesis using ps(2) c by simp
qed

text \<open>
  C8. A successful create, in a state that requests have led to, appends one entry to
  the store, the returned product under the old counter, which was not a key before;
  every other key holds what it held, and the counter has grown by exactly one.
\<close>

theorem create_product_frame:
  assumes "s = exec init_state rs" and "create_product now b s = (Inr p, s')"
  shows "id_num p = product_counter s
    \<and> \<not> dict_contains (id_num p) (fake_db s)
    \<and> fake_db s' = fake_db s @ [(id_num p, p)]
    \<and> length (fake_db s') = length (fake_db s) + 1
    \<and> dict_getitem (fake_db s') (id_num p) = Some p
    \<and> (\<forall>k. k \<noteq> id_num p \<longrightarrow> dict_getitem (fake_db s') k = dict_getitem (fake_db s) k)
    \<and> product_counter s' = product_counter s + 1"
proof -
  note c = create_product_Inr [OF assms(2)]
  from assms(1) have "store_inv s" by (simp add: reachable_inv)
  then have fresh: "\<not> dict_contains (product_counter s) (fake_db s)"
    by (rule store_inv_fresh)
  then have "fake_db s' = fake_db s @ [(product_counter s, p)]"
    using c(3) by (simp add: dict_setitem_fresh)
  moreover have "dict_getitem (fake_db s') k =
      (if k = product_counter s then Some p else dict_getitem (fake_db s) k)" for k
    using c(3) by (simp add: dict_getitem_setitem)
  moreover have "product_counter s' = product_counter s + 1"
    using c(3) by simp
  ultimately show ?thesis using c(1) fresh by simp
qed

theorem create_product_frame_witness:
  "fake_db (snd (create_product 20 example_body
       (exec init_state [Create 10 example_body])))
     = [(1, example_product 1 10), (2, example_product 2 20)]
   \<and> product_counter (snd (create_product 20 example_body
       (exec init_state [Create 10 example_body]))) = 3"
proof -
  have s: "exec init_state [Create 10 example_body]
             = \<lparr>fake_db = [(1, example_product 1 10)], product_counter = 2\<rparr>"
    by (simp add: dispatch_create_example init_state_def del: dispatch.simps)
  have c: "create_product 20 example_body (exec init_state [Create 10 example_body])
     = (Inr (example_product 2 20),
        \<lparr>fake_db = [(1, example_product 1 10), (2, example_product 2 20)],
         product_counter = 3\<rparr>)"
    unfolding s create_example by simp
  from create_product_frame [OF refl c] show ?thesis
    unfolding c by (simp add: s)
qed

lemma store_inv_key_pos:
  assumes "store_inv s" and "dict_contains i (fake_db s)"
  shows "0 < i"
proof -
  from assms(2) obtain p where "(i, p) \<in> set (fake_db s)"
    by (auto simp: dict_contains_keys dict_keys_def)
  with assms(1) show ?thesis
    by (auto simp: store_inv_def list_all_iff)
qed

lemma delete_product_present:
  assumes inv: "store_inv s" and dist: "distinct (dict_keys (fake_db s))"
    and c: "dict_contains i (fake_db s)"
  shows "\<exists>m s'. delete_product i s = (Inr m, s')
              \<and> fake_db s' = filter (\<lambda>(k, p). k \<noteq> i) (fake_db s)
              \<and> Suc (length (fake_db s')) = length (fake_db s)
              \<and> (\<forall>k. k \<noteq> i \<longrightarrow> dict_getitem (fake_db s') k = dict_getitem (fake_db s) k)
              \<and> product_counter s' = product_counter s
              \<and> read_product i s' = (Inl NotFound, s')"
proof -
  from inv c have pos: "0 < i" by (rule store_inv_key_pos)
  from dict_delitem_contains [OF c] obtain d where d: "dict_delitem (fake_db s) i = Some d" ..
  let ?m = "[(str_lit ''message'',
              str_lit ''Product '' @ str_int i @ str_lit '' deleted successfully'')]"
  let ?s' = "s\<lparr>fake_db := d\<rparr>"
  from c pos d have del: "delete_product i s = (Inr ?m, ?s')"
    by (simp add: delete_product_def)
  have gone: "dict_getitem d k = (if k = i then None else dict_getitem (fake_db s) k)" for k
    by (rule dict_delitem_getitem [OF dist d])
  have "dict_getitem d i = None" by (simp add: gone)
  then have "\<not> dict_contains i d"
    by (simp add: dict_contains_getitem)
  with pos have rd: "read_product i ?s' = (Inl NotFound, ?s')"
    by (simp add: read_product_def)
  have fl: "fake_db ?s' = filter (\<lambda>(k, p). k \<noteq> i) (fake_db s)"
    using dict_delitem_filter [OF dist d] by simp
  have ln: "Suc (length (fake_db ?s')) = length (fake_db s)"
    using dict_delitem_length [OF d] by simp
  have others: "\<forall>k. k \<noteq> i \<longrightarrow> dict_getitem (fake_db ?s') k = dict_getitem (fake_db s) k"
    by (simp add: gone)
  have cn: "product_counter ?s' = product_counter s" by simp
  from del fl ln others cn rd show ?thesis by (intro exI conjI)
qed

text \<open>
  C6. Deleting an identifier greater than 0 that is not in the store answers not found
  and returns the state unchanged. In a state that requests have led to, deleting an
  identifier that is in the store answers with the confirmation message and removes
  that entry and no other: the store is one entry shorter, the other keys hold what
  they held, the counter is the same, and a read of the identifier now answers
  not found.
\<close>

theorem delete_product_found_or_not:
  "(0 < i \<and> \<not> dict_contains i (fake_db s) \<longrightarrow> delete_product i s = (Inl NotFound, s))
   \<and> (dict_contains i (fake_db (exec init_state rs)) \<longrightarrow>
        0 < i
        \<and> (\<exists>m s'. delete_product i (exec init_state rs) = (Inr m, s')
              \<and> fake_db s' = filter (\<lambda>(k, p). k \<noteq> i) (fake_db (exec init_state rs))
              \<and> Suc (length (fake_db s')) = length (fake_db (exec init_state rs))
              \<and> (\<forall>k. k \<noteq> i \<longrightarrow>
                    dict_getitem (fake_db s') k = dict_getitem (fake_db (exec init_state rs)) k)
              \<and> product_counter s' = product_counter (exec init_state rs)
              \<and> read_product i s' = (Inl NotFound, s')))"
proof (intro conjI impI)
  assume "0 < i \<and> \<not> dict_contains i (fake_db s)"
  then show "delete_product i s = (Inl NotFound, s)"
    by (simp add: delete_product_def)
next
  assume "dict_contains i (fake_db (exec init_state rs))"
  with reachable_inv show "0 < i" by (rule store_inv_key_pos)
next
  assume "dict_contains i (fake_db (exec init_state rs))"
  with reachable_inv reachable_distinct
  show "\<exists>m s'. delete_product i (exec init_state rs) = (Inr m, s')
              \<and> fake_db s' = filter (\<lambda>(k, p). k \<noteq> i) (fake_db (exec init_state rs))
              \<and> Suc (length (fake_db s')) = length (fake_db (exec init_state rs))
              \<and> (\<forall>k. k \<noteq> i \<longrightarrow>
                    dict_getitem (fake_db s') k = dict_getitem (fake_db (exec init_state rs)) k)
              \<and> product_counter s' = product_counter (exec init_state rs)
              \<and> read_product i s' = (Inl NotFound, s')"
    by (rule delete_product_present)
qed

theorem delete_product_found_or_not_witness:
  "delete_product 99999 (exec init_state [Create 10 example_body])
     = (Inl NotFound, exec init_state [Create 10 example_body])
   \<and> snd (delete_product 1 (exec init_state [Create 10 example_body]))
     = \<lparr>fake_db = [], product_counter = 2\<rparr>
   \<and> read_product 1 (snd (delete_product 1 (exec init_state [Create 10 example_body])))
     = (Inl NotFound, \<lparr>fake_db = [], product_counter = 2\<rparr>)"
proof -
  let ?s = "exec init_state [Create 10 example_body]"
  have s: "?s = \<lparr>fake_db = [(1, example_product 1 10)], product_counter = 2\<rparr>"
    by (simp add: dispatch_create_example init_state_def del: dispatch.simps)
  have absent: "0 < (99999::int) \<and> \<not> dict_contains 99999 (fake_db ?s)"
    unfolding s by simp
  have present: "dict_contains 1 (fake_db ?s)"
    unfolding s by simp
  have 1: "delete_product 99999 ?s = (Inl NotFound, ?s)"
    using delete_product_found_or_not [where i = 99999 and s = ?s, THEN conjunct1] absent
    by (rule mp)
  have "\<exists>m s'. delete_product 1 ?s = (Inr m, s')
          \<and> fake_db s' = filter (\<lambda>(k, p). k \<noteq> 1) (fake_db ?s)
          \<and> Suc (length (fake_db s')) = length (fake_db ?s)
          \<and> (\<forall>k. k \<noteq> 1 \<longrightarrow> dict_getitem (fake_db s') k = dict_getitem (fake_db ?s) k)
          \<and> product_counter s' = product_counter ?s
          \<and> read_product 1 s' = (Inl NotFound, s')"
    using delete_product_found_or_not [where i = 1
        and rs = "[Create 10 example_body]", THEN conjunct2, THEN mp, OF present]
    by (rule conjunct2)
  then obtain m s' where d: "delete_product 1 ?s = (Inr m, s')"
    and f: "fake_db s' = filter (\<lambda>(k, p). k \<noteq> 1) (fake_db ?s)"
    and c: "product_counter s' = product_counter ?s"
    and r: "read_product 1 s' = (Inl NotFound, s')"
    by (elim exE conjE)
  from f c have s': "s' = \<lparr>fake_db = [], product_counter = 2\<rparr>"
    unfolding s by auto
  from d have "snd (delete_product 1 ?s) = s'" by simp
  with 1 r s' show ?thesis by simp
qed

text \<open>
  C9. The store invariant (the counter is at least 1, every key is at least 1 and below
  the counter, and the product under a key has that key as its identifier) holds in
  the initial state and is kept by every request, whether create, read, list or delete;
  so it holds after any sequence of requests, where the identifiers of the stored
  products are moreover pairwise different.
\<close>

theorem store_inv_preserved:
  "store_inv init_state
   \<and> (store_inv s \<longrightarrow> store_inv (snd (dispatch r s)))
   \<and> store_inv (exec init_state rs)
   \<and> distinct (map id_num (dict_values (fake_db (exec init_state rs))))"
proof -
  have "distinct (map id_num (dict_values (fake_db (exec init_state rs))))"
    using reachable_distinct [of rs] store_inv_ids [OF reachable_inv, of rs] by simp
  then show ?thesis
    by (simp add: store_inv_init store_inv_dispatch reachable_inv)
qed

theorem store_inv_preserved_witness:
  "store_inv \<lparr>fake_db = [(1, example_product 1 10)], product_counter = 2\<rparr>
   \<and> store_inv (snd (dispatch (Create 20 example_body)
        \<lparr>fake_db = [(1, example_product 1 10)], product_counter = 2\<rparr>))
   \<and> store_inv (snd (dispatch (Delete 1)
        \<lparr>fake_db = [(1, example_product 1 10)], product_counter = 2\<rparr>))
   \<and> store_inv (snd (dispatch (Read 1)
        \<lparr>fake_db = [(1, example_product 1 10)], product_counter = 2\<rparr>))
   \<and> store_inv (snd (dispatch (ListAll 0 10 None)
        \<lparr>fake_db = [(1, example_product 1 10)], product_counter = 2\<rparr>))"
proof -
  let ?s = "\<lparr>fake_db = [(1, example_product 1 10)], product_counter = 2\<rparr>"
  have "store_inv ?s"
    by (simp add: store_inv_def example_product_def)
  with store_inv_preserved [where s = ?s and r = "Create 20 example_body"]
    store_inv_preserved [where s = ?s and r = "Delete 1"]
    store_inv_preserved [where s = ?s and r = "Read 1"]
    store_inv_preserved [where s = ?s and r = "ListAll 0 10 None"]
  show ?thesis by blast
qed

text \<open>
  C7. Whatever the window and the filter, the products a listing returns, in a state
  that requests have led to, appear in the order in which they were created: the
  result is a subsequence of the sequence of the products that the creates returned,
  taken in the order of the creates, which has no repetition; so the result is in
  increasing order of identifiers.
\<close>

theorem read_products_creation_order:
  assumes "read_products skip limit q (exec init_state rs) = (Inr xs, s')"
  shows "subseq xs (created (responses init_state rs))
    \<and> distinct (created (responses init_state rs))
    \<and> sorted_wrt (\<lambda>p p'. id_num p < id_num p') xs"
proof -
  have "subseq xs (dict_values (fake_db (exec init_state rs)))"
    using assms by (rule read_products_subseq)
  moreover have "subseq (dict_values (fake_db (exec init_state rs)))
                        (created (responses init_state rs))"
    using values_subseq_created [OF store_inv_init, of rs]
    by (simp add: init_state_def dict_values_def)
  ultimately have sub: "subseq xs (created (responses init_state rs))"
    by (rule subseq_order.trans)
  then have "sorted_wrt (\<lambda>p p'. id_num p < id_num p') xs"
    using created_sorted by (rule sorted_wrt_subseq)
  with sub created_distinct show ?thesis by blast
qed

lemma exec_three:
  "exec init_state [Create 10 example_body, Create 20 example_body, Delete 1,
                    Create 30 example_body]
   = \<lparr>fake_db = [(2, example_product 2 20), (3, example_product 3 30)],
      product_counter = 4\<rparr>"
  by (simp add: dispatch_create_example init_state_def delete_product_def
      del: dispatch.simps(1))

theorem read_products_creation_order_witness:
  "read_products 0 10 None
     (exec init_state [Create 10 example_body, Create 20 example_body, Delete 1,
                       Create 30 example_body])
     = (Inr [example_product 2 20, example_product 3 30],
        \<lparr>fake_db = [(2, example_product 2 20), (3, example_product 3 30)],
         product_counter = 4\<rparr>)
   \<and> subseq [example_product 2 20, example_product 3 30]
        (created (responses init_state
           [Create 10 example_body, Create 20 example_body, Delete 1,
            Create 30 example_body]))"
proof -
  have r: "read_products 0 10 None
     (exec init_state [Create 10 example_body, Create 20 example_body, Delete 1,
                       Create 30 example_body])
     = (Inr [example_product 2 20, example_product 3 30],
        \<lparr>fake_db = [(2, example_product 2 20), (3, example_product 3 30)],
         product_counter = 4\<rparr>)"
    unfolding exec_three
    by (simp add: read_products_def py_slice_def slice_bound_def dict_values_def)
  from read_products_creation_order [OF r] r show ?thesis by blast
qed

end
